theory Spec2Isabelle
  imports Complex_Main "HOL-Library.Multiset"
begin

section \<open>Values of type double\<close>

text \<open>
  The program computes on C++ \<open>double\<close> values. The model keeps the special values the
  code relies on (\<open>GetMinMax\<close> and \<open>GetBounds\<close> start from plus and minus infinity, a
  division by zero yields an infinity, zero times infinity yields NaN) and takes the
  finite values to be real numbers with exact arithmetic: rounding, overflow of finite
  results and the sign of zero are not modelled. Comparisons follow IEEE 754: every
  comparison with NaN is false.

  The comparisons are those of the code on all values; the arithmetic is that of the
  code where no rounding takes place.
\<close>

datatype double = Fin real | PInf | NInf | NaN

instantiation double :: "{ord, plus, minus, times, inverse}"
begin

fun less_double :: "double \<Rightarrow> double \<Rightarrow> bool" where
  "less_double NaN _ = False"
| "less_double _ NaN = False"
| "less_double (Fin a) (Fin b) = (a < b)"
| "less_double (Fin a) PInf = True"
| "less_double (Fin a) NInf = False"
| "less_double PInf _ = False"
| "less_double NInf NInf = False"
| "less_double NInf _ = True"

fun less_eq_double :: "double \<Rightarrow> double \<Rightarrow> bool" where
  "less_eq_double NaN _ = False"
| "less_eq_double _ NaN = False"
| "less_eq_double (Fin a) (Fin b) = (a \<le> b)"
| "less_eq_double (Fin a) PInf = True"
| "less_eq_double (Fin a) NInf = False"
| "less_eq_double PInf PInf = True"
| "less_eq_double PInf _ = False"
| "less_eq_double NInf _ = True"

fun plus_double :: "double \<Rightarrow> double \<Rightarrow> double" where
  "plus_double NaN _ = NaN"
| "plus_double _ NaN = NaN"
| "plus_double (Fin a) (Fin b) = Fin (a + b)"
| "plus_double (Fin a) PInf = PInf"
| "plus_double (Fin a) NInf = NInf"
| "plus_double PInf NInf = NaN"
| "plus_double PInf _ = PInf"
| "plus_double NInf PInf = NaN"
| "plus_double NInf _ = NInf"

fun minus_double :: "double \<Rightarrow> double \<Rightarrow> double" where
  "minus_double NaN _ = NaN"
| "minus_double _ NaN = NaN"
| "minus_double (Fin a) (Fin b) = Fin (a - b)"
| "minus_double (Fin a) PInf = NInf"
| "minus_double (Fin a) NInf = PInf"
| "minus_double PInf PInf = NaN"
| "minus_double PInf _ = PInf"
| "minus_double NInf NInf = NaN"
| "minus_double NInf _ = NInf"

text \<open>The sign of an infinite product; zero times infinity is NaN.\<close>

fun inf_times :: "bool \<Rightarrow> real \<Rightarrow> double" where
  "inf_times pos a =
     (if a = 0 then NaN else if (0 < a) = pos then PInf else NInf)"

fun times_double :: "double \<Rightarrow> double \<Rightarrow> double" where
  "times_double NaN _ = NaN"
| "times_double _ NaN = NaN"
| "times_double (Fin a) (Fin b) = Fin (a * b)"
| "times_double (Fin a) PInf = inf_times True a"
| "times_double (Fin a) NInf = inf_times False a"
| "times_double PInf (Fin b) = inf_times True b"
| "times_double NInf (Fin b) = inf_times False b"
| "times_double PInf PInf = PInf"
| "times_double PInf NInf = NInf"
| "times_double NInf PInf = NInf"
| "times_double NInf NInf = PInf"

text \<open>
  Division: zero by zero is NaN, a finite value by an infinity is zero, an infinity
  by an infinity is NaN. A finite non-zero value divided by zero is an infinity; the
  model has one zero and reads a zero divisor as the positive zero, so the infinity has
  the sign of the dividend. That is the code's result when the divisor is the
  difference of two equal non-zero values (\<open>x - x\<close> is the positive zero); for the
  difference of zeros of opposite signs the code's infinity may have the other sign, and
  the statements below exclude that case by a hypothesis.
\<close>

fun divide_double :: "double \<Rightarrow> double \<Rightarrow> double" where
  "divide_double NaN _ = NaN"
| "divide_double _ NaN = NaN"
| "divide_double (Fin a) (Fin b) =
     (if b = 0 then (if a = 0 then NaN else if 0 < a then PInf else NInf)
      else Fin (a / b))"
| "divide_double (Fin a) PInf = Fin 0"
| "divide_double (Fin a) NInf = Fin 0"
| "divide_double PInf (Fin b) = (if 0 \<le> b then PInf else NInf)"
| "divide_double NInf (Fin b) = (if 0 \<le> b then NInf else PInf)"
| "divide_double PInf _ = NaN"
| "divide_double NInf _ = NaN"

definition inverse_double :: "double \<Rightarrow> double" where
  "inverse_double x = divide (Fin 1) x"

instance ..

end

datatype error = InvalidInputError

section \<open>Grids\<close>

text \<open>
  A \<open>Grid<double>\<close> stores its width, its height and the cells in one row-major array;
  \<open>data[y][x]\<close> reads the array at \<open>y * width + x\<close>.
\<close>

record grid =
  gwidth :: nat
  gheight :: nat
  gdata :: "double list"

definition cell :: "grid \<Rightarrow> nat \<Rightarrow> nat \<Rightarrow> double" where
  "cell g y x = gdata g ! (y * gwidth g + x)"

definition grid_ok :: "grid \<Rightarrow> bool" where
  "grid_ok g = (length (gdata g) = gwidth g * gheight g)"

text \<open>
  The loops over a grid do not run to its width and height but to
  \<open>static_cast<int32>\<close> copies of them: the size is reduced modulo \<open>2^32\<close> and read as a
  signed number. A loop \<open>for (int32 i = 0; i < n; ++i)\<close> visits the indices below \<open>n\<close>,
  none when \<open>n\<close> is negative.
\<close>

definition int32_of_size :: "nat \<Rightarrow> int" where
  "int32_of_size n =
     (let m = int n mod 2 ^ 32 in if m < 2 ^ 31 then m else m - 2 ^ 32)"

definition int32_range :: "int \<Rightarrow> nat list" where
  "int32_range n = [0..<nat n]"

section \<open>GetMinMax\<close>

record mm_state =
  mn :: double
  mx :: double
  hasMin :: bool

text \<open>The body of the inner loop of \<open>GetMinMax\<close>, for the cell value \<open>v\<close>.\<close>

definition minmax_step :: "double \<Rightarrow> mm_state \<Rightarrow> mm_state" where
  "minmax_step v s =
     (let s1 = (if Fin 100 \<le> v
                then s\<lparr>mn := (if \<not> hasMin s \<or> v < mn s then v else mn s), hasMin := True\<rparr>
                else s)
      in if mx s1 < v then s1\<lparr>mx := v\<rparr> else s1)"

definition minmax_init :: mm_state where
  "minmax_init = \<lparr>mn = PInf, mx = NInf, hasMin = False\<rparr>"

definition minmax_scan :: "grid \<Rightarrow> mm_state" where
  "minmax_scan g =
     (let w = int32_of_size (gwidth g);
          h = int32_of_size (gheight g)
      in fold (\<lambda>y. fold (\<lambda>x. minmax_step (cell g y x)) (int32_range w)) (int32_range h)
           minmax_init)"

text \<open>
  \<open>GetMinMax\<close> has no failing path: it returns the pair \<open>(mn, mx)\<close> on every grid. The
  result type is a sum so that this can be stated.
\<close>

definition GetMinMax :: "grid \<Rightarrow> error + (double \<times> double)" where
  "GetMinMax g =
     (let s = minmax_scan g
      in Inr (if \<not> hasMin s then Fin 100 else mn s, mx s))"

section \<open>GetBounds\<close>

record weatherData =
  pmsl :: grid
  lats :: "double list"
  lons :: "double list"

record GeoBounds =
  lonMin :: double
  lonMax :: double
  latMin :: double
  latMax :: double

text \<open>The library's two-argument \<open>Min\<close> and \<open>Max\<close>: one comparison each.\<close>

definition Min_double :: "double \<Rightarrow> double \<Rightarrow> double" where
  "Min_double a b = (if b < a then b else a)"

definition Max_double :: "double \<Rightarrow> double \<Rightarrow> double" where
  "Max_double a b = (if a < b then b else a)"

definition bounds_step :: "double \<Rightarrow> double \<times> double \<Rightarrow> double \<times> double" where
  "bounds_step v b = (Min_double (fst b) v, Max_double (snd b) v)"

text \<open>\<open>GetBounds\<close> has no failing path either: both loops may run zero times.\<close>

definition GetBounds :: "weatherData \<Rightarrow> error + GeoBounds" where
  "GetBounds field =
     (let lo = fold bounds_step (lons field) (PInf, NInf);
          la = fold bounds_step (lats field) (PInf, NInf)
      in Inr \<lparr>lonMin = fst lo, lonMax = snd lo, latMin = fst la, latMax = snd la\<rparr>)"

section \<open>CreateColormapImage\<close>

text \<open>
  The library's \<open>Clamp\<close> compares and returns one of its arguments, so a NaN passes
  through it unchanged.
\<close>

definition Clamp :: "double \<Rightarrow> double \<Rightarrow> double \<Rightarrow> double" where
  "Clamp v lo hi = (if hi < v then hi else if v < lo then lo else v)"

text \<open>The normalised value of one cell, as the loop body computes it.\<close>

definition normalized :: "double \<Rightarrow> double \<Rightarrow> double \<Rightarrow> double" where
  "normalized v vmin invRange = Clamp ((v - vmin) * invRange) (Fin 0) (Fin 1)"

record 'c image =
  iwidth :: nat
  iheight :: nat
  pixels :: "'c list"

text \<open>
  The colour ramp \<open>Colormap01F\<close> belongs to the graphics library: it is the parameter
  \<open>cm\<close>. \<open>blank\<close> is the colour of the pixels of a fresh image. The image is made
  with the \<open>int32\<close> copies \<open>w\<close> and \<open>h\<close> of the grid's width and height, and
  \<open>img[y][x]\<close> is the pixel at \<open>y * w + x\<close> of the image while \<open>data[y][x]\<close> is the
  cell at \<open>y * width + x\<close> of the grid. With a negative copy the loops do not run; the
  model then takes the image to have no pixels in that direction.
\<close>

definition colormap_rows ::
  "(double \<Rightarrow> 'k \<Rightarrow> 'c) \<Rightarrow> grid \<Rightarrow> double \<Rightarrow> double \<Rightarrow> 'k \<Rightarrow> int \<Rightarrow> int \<Rightarrow>
     'c list \<Rightarrow> 'c list" where
  "colormap_rows cm data vmin invRange cmapType w h =
     fold (\<lambda>y. fold (\<lambda>x px.
              px[y * nat w + x := cm (normalized (cell data y x) vmin invRange) cmapType])
            (int32_range w))
       (int32_range h)"

definition CreateColormapImage ::
  "(double \<Rightarrow> 'k \<Rightarrow> 'c) \<Rightarrow> 'c \<Rightarrow> grid \<Rightarrow> double \<Rightarrow> double \<Rightarrow> 'k \<Rightarrow> 'c image" where
  "CreateColormapImage cm blank data vmin vmax cmapType =
     (let invRange = Fin 1 / (vmax - vmin);
          w = int32_of_size (gwidth data);
          h = int32_of_size (gheight data)
      in \<lparr>iwidth = nat w, iheight = nat h,
          pixels = colormap_rows cm data vmin invRange cmapType w h
                     (replicate (nat w * nat h) blank)\<rparr>)"

definition pixel :: "'c image \<Rightarrow> nat \<Rightarrow> nat \<Rightarrow> 'c" where
  "pixel img y x = pixels img ! (y * iwidth img + x)"

section \<open>CoastlineOverlay\<close>

record Vec2 =
  vx :: double
  vy :: double

record RectF =
  rx :: double
  ry :: double
  rw :: double
  rh :: double

text \<open>The library's test whether two rectangles intersect: four strict comparisons.\<close>

definition intersects :: "RectF \<Rightarrow> RectF \<Rightarrow> bool" where
  "intersects a b =
     (rx a < rx b + rw b \<and> rx b < rx a + rw a \<and> ry a < ry b + rh b \<and> ry b < ry a + rh a)"

record 'p CoastlineOverlay =
  countries :: "'p list"
  visibleIndices :: "nat list"
  m_w :: int
  m_h :: int

text \<open>
  The constructor. The features read from the GeoJSON file are the parameter \<open>loaded\<close>,
  the library's \<open>computeBoundingRect\<close> is the parameter \<open>bbox\<close>.
\<close>

definition visible_step :: "('p \<Rightarrow> RectF) \<Rightarrow> RectF \<Rightarrow> nat \<times> 'p \<Rightarrow> nat list \<Rightarrow> nat list" where
  "visible_step bbox view ic vis =
     (if intersects (bbox (snd ic)) view then vis @ [fst ic] else vis)"

definition new_CoastlineOverlay :: "('p \<Rightarrow> RectF) \<Rightarrow> 'p list \<Rightarrow> RectF \<Rightarrow> 'p CoastlineOverlay" where
  "new_CoastlineOverlay bbox loaded geoViewRectLonY =
     \<lparr>countries = loaded,
      visibleIndices = fold (visible_step bbox geoViewRectLonY) (enumerate 0 loaded) [],
      m_w = 1, m_h = 1\<rparr>"

definition setGridSize :: "int \<Rightarrow> int \<Rightarrow> 'p CoastlineOverlay \<Rightarrow> 'p CoastlineOverlay" where
  "setGridSize w h ov = ov\<lparr>m_w := w, m_h := h\<rparr>"

text \<open>
  \<open>draw\<close> builds the transform \<open>Mat3x2::Scale(s).translated(t)\<close>, which sends a point
  \<open>p\<close> to \<open>p * s + t\<close> componentwise, and strokes the visible countries under it.
\<close>

record transform2D =
  scale :: Vec2
  translate :: Vec2

definition draw_transform ::
  "'p CoastlineOverlay \<Rightarrow> RectF \<Rightarrow> double \<Rightarrow> double \<Rightarrow> double \<Rightarrow> double \<Rightarrow> transform2D" where
  "draw_transform ov destRect lonMin' lonMax' yMin yMax =
     (let pixelSize = \<lparr>vx = rw destRect / (Fin 1 * Fin (of_int (m_w ov))),
                       vy = rh destRect / (Fin 1 * Fin (of_int (m_h ov)))\<rparr>;
          halfPixel = \<lparr>vx = vx pixelSize * Fin (1/2), vy = vy pixelSize * Fin (1/2)\<rparr>;
          sx = (rw destRect - vx pixelSize) / (lonMax' - lonMin');
          sy = (rh destRect - vy pixelSize) / (yMax - yMin)
      in \<lparr>scale = \<lparr>vx = sx, vy = sy\<rparr>,
          translate = \<lparr>vx = (rx destRect + vx halfPixel) - lonMin' * sx,
                       vy = (ry destRect + vy halfPixel) - yMin * sy\<rparr>\<rparr>)"

definition transformPoint :: "transform2D \<Rightarrow> Vec2 \<Rightarrow> Vec2" where
  "transformPoint t p =
     \<lparr>vx = vx p * vx (scale t) + vx (translate t),
      vy = vy p * vy (scale t) + vy (translate t)\<rparr>"

definition draw ::
  "'p CoastlineOverlay \<Rightarrow> RectF \<Rightarrow> double \<Rightarrow> double \<Rightarrow> double \<Rightarrow> double \<Rightarrow> transform2D \<times> 'p list" where
  "draw ov destRect lonMin' lonMax' yMin yMax =
     (draw_transform ov destRect lonMin' lonMax' yMin yMax,
      map (\<lambda>i. countries ov ! i) (visibleIndices ov))"

section \<open>Example grids\<close>

text \<open>The grid of the end-to-end scenario, and a grid whose cells are all below 100.\<close>

definition scenario_grid :: grid where
  "scenario_grid = \<lparr>gwidth = 2, gheight = 2, gdata = [Fin 50, Fin 150, Fin 300, Fin 100]\<rparr>"

definition low_grid :: grid where
  "low_grid = \<lparr>gwidth = 3, gheight = 1, gdata = [Fin 50, Fin 99, Fin (- 5)]\<rparr>"

section \<open>Row-major scans are folds over the cell array\<close>

lemma fold_row:
  "k + w \<le> length xs \<Longrightarrow>
   fold (\<lambda>x. f (xs ! (k + x))) [0..<w] s = fold f (take w (drop k xs)) s"
proof -
  assume le: "k + w \<le> length xs"
  have "map (\<lambda>x. xs ! (k + x)) [0..<w] = take w (drop k xs)"
    using le by (intro nth_equalityI) auto
  then have "fold f (take w (drop k xs)) s = fold f (map (\<lambda>x. xs ! (k + x)) [0..<w]) s"
    by simp
  also have "\<dots> = fold (\<lambda>x. f (xs ! (k + x))) [0..<w] s"
    by (simp add: fold_map comp_def)
  finally show ?thesis by simp
qed

lemma fold_rows:
  "n * w \<le> length xs \<Longrightarrow>
   fold (\<lambda>y. fold (\<lambda>x. f (xs ! (y * w + x))) [0..<w]) [0..<n] s = fold f (take (n * w) xs) s"
proof (induction n)
  case 0
  then show ?case by simp
next
  case (Suc n)
  then have le: "n * w + w \<le> length xs" and le': "n * w \<le> length xs" by simp_all
  have eq: "Suc n * w = n * w + w" by simp
  have "fold (\<lambda>y. fold (\<lambda>x. f (xs ! (y * w + x))) [0..<w]) [0..<Suc n] s =
        fold (\<lambda>x. f (xs ! (n * w + x))) [0..<w]
          (fold (\<lambda>y. fold (\<lambda>x. f (xs ! (y * w + x))) [0..<w]) [0..<n] s)"
    by simp
  also have "\<dots> = fold f (take w (drop (n * w) xs)) (fold f (take (n * w) xs) s)"
    by (simp only: Suc.IH [OF le'] fold_row [OF le])
  also have "\<dots> = fold f (take (n * w) xs @ take w (drop (n * w) xs)) s"
    by simp
  also have "\<dots> = fold f (take (Suc n * w) xs) s"
    by (simp only: eq take_add)
  finally show ?case .
qed

lemma int32_of_size_id: "n < 2 ^ 31 \<Longrightarrow> int32_of_size n = int n"
  by (simp add: int32_of_size_def Let_def)

lemma int32_range_id: "n < 2 ^ 31 \<Longrightarrow> int32_range (int32_of_size n) = [0..<n]"
  by (simp add: int32_range_def int32_of_size_id)

lemma int32_of_size_le: "nat (int32_of_size n) \<le> n"
proof -
  have "int n mod 2 ^ 32 \<le> int n"
    by (rule zmod_le_nonneg_dividend) simp
  then show ?thesis
    by (auto simp: int32_of_size_def Let_def)
qed

lemma minmax_scan_fold:
  assumes "grid_ok g" and "gwidth g < 2 ^ 31" and "gheight g < 2 ^ 31"
  shows "minmax_scan g = fold minmax_step (gdata g) minmax_init"
  unfolding minmax_scan_def cell_def Let_def
  using assms fold_rows [of "gheight g" "gwidth g" "gdata g" minmax_step minmax_init]
  by (simp add: int32_range_id grid_ok_def mult.commute)

text \<open>
  Whatever the sizes, the scan applies the loop body to a list of values that are
  cells of the grid.
\<close>

lemma fold_fold_concat:
  "fold (\<lambda>y. fold (\<lambda>x. f (c y x)) xs) ys s = fold f (concat (map (\<lambda>y. map (c y) xs) ys)) s"
  by (induction ys arbitrary: s) (simp_all add: fold_map comp_def)

lemma minmax_scan_cells:
  assumes "grid_ok g"
  shows "\<exists>cs. set cs \<subseteq> set (gdata g) \<and> minmax_scan g = fold minmax_step cs minmax_init"
proof -
  let ?w = "nat (int32_of_size (gwidth g))" and ?h = "nat (int32_of_size (gheight g))"
  let ?cs = "concat (map (\<lambda>y. map (cell g y) [0..<?w]) [0..<?h])"
  have "cell g y x \<in> set (gdata g)" if "y < ?h" and "x < ?w" for y x
  proof -
    from that have y: "y < gheight g" and x: "x < gwidth g"
      using int32_of_size_le [of "gheight g"] int32_of_size_le [of "gwidth g"] by simp_all
    from y have "y * gwidth g + gwidth g \<le> gheight g * gwidth g"
      using mult_le_mono1 [of "Suc y" "gheight g" "gwidth g"] by (simp add: add.commute)
    with x have "y * gwidth g + x < length (gdata g)"
      using assms by (simp add: grid_ok_def mult.commute)
    then show ?thesis by (simp add: cell_def)
  qed
  then have "set ?cs \<subseteq> set (gdata g)" by auto
  moreover have "minmax_scan g = fold minmax_step ?cs minmax_init"
    by (simp add: minmax_scan_def Let_def int32_range_def fold_fold_concat)
  ultimately show ?thesis by blast
qed

section \<open>The order on double\<close>

lemma double_less_trans: "(a::double) < b \<Longrightarrow> b < c \<Longrightarrow> a < c"
  by (cases a; cases b; cases c) auto

lemma double_less_le_trans: "(a::double) < b \<Longrightarrow> b \<le> c \<Longrightarrow> a \<le> c"
  by (cases a; cases b; cases c) auto

lemma double_le_antisym: "(a::double) \<le> b \<Longrightarrow> b \<le> a \<Longrightarrow> a = b"
  by (cases a; cases b) auto

lemma double_le_refl: "(c::double) \<le> a \<Longrightarrow> a \<le> a"
  by (cases a; cases c) auto

lemma double_less_irrefl: "\<not> (a::double) < a"
  by (cases a) auto

lemma double_less_not_NaN: "(a::double) < b \<Longrightarrow> b \<noteq> NaN"
  by (cases a; cases b) auto

lemma double_not_less_antisym: "\<not> (a::double) < b \<Longrightarrow> \<not> b < a \<Longrightarrow> a \<noteq> NaN \<Longrightarrow> b \<noteq> NaN \<Longrightarrow> a = b"
  by (cases a; cases b) auto

lemma double_le_iff: "(a::double) \<le> b \<longleftrightarrow> a \<noteq> NaN \<and> b \<noteq> NaN \<and> \<not> b < a"
  by (cases a; cases b) auto

section \<open>Invariants of the GetMinMax scan\<close>

lemma minmax_hasMin:
  "hasMin (fold minmax_step xs minmax_init) \<longleftrightarrow> (\<exists>c\<in>set xs. Fin 100 \<le> c)"
  by (induction xs rule: rev_induct) (auto simp: minmax_step_def minmax_init_def Let_def)

lemma minmax_mn:
  "hasMin (fold minmax_step xs minmax_init) \<Longrightarrow>
   mn (fold minmax_step xs minmax_init) \<in> set xs \<and>
   Fin 100 \<le> mn (fold minmax_step xs minmax_init) \<and>
   (\<forall>c\<in>set xs. Fin 100 \<le> c \<longrightarrow> mn (fold minmax_step xs minmax_init) \<le> c)"
proof (induction xs rule: rev_induct)
  case Nil
  then show ?case by (simp add: minmax_init_def)
next
  case (snoc v xs)
  let ?s = "fold minmax_step xs minmax_init"
  show ?case
  proof (cases "Fin 100 \<le> v")
    case False
    then have same: "mn (minmax_step v ?s) = mn ?s" "hasMin (minmax_step v ?s) = hasMin ?s"
      by (simp_all add: minmax_step_def Let_def)
    with snoc False show ?thesis by auto
  next
    case ge: True
    show ?thesis
    proof (cases "\<not> hasMin ?s \<or> v < mn ?s")
      case True
      then have new: "mn (minmax_step v ?s) = v"
        using ge by (simp add: minmax_step_def Let_def)
      have "\<forall>c\<in>set xs. Fin 100 \<le> c \<longrightarrow> v \<le> c"
      proof (cases "hasMin ?s")
        case False
        then show ?thesis by (simp add: minmax_hasMin)
      next
        case h: True
        with True have "v < mn ?s" by simp
        with snoc.IH [OF h] show ?thesis
          by (blast intro: double_less_le_trans)
      qed
      moreover have "v \<le> v" using ge by (rule double_le_refl)
      ultimately show ?thesis using ge new by simp
    next
      case False
      then have h: "hasMin ?s" and nl: "\<not> v < mn ?s" by simp_all
      have old: "mn (minmax_step v ?s) = mn ?s"
        using ge False by (simp add: minmax_step_def Let_def)
      have "mn ?s \<le> v"
        using nl snoc.IH [OF h] ge by (simp add: double_le_iff)
      with snoc.IH [OF h] old show ?thesis by simp
    qed
  qed
qed

lemma minmax_mx:
  "mx (fold minmax_step xs minmax_init) \<in> insert NInf (set xs) \<and>
   mx (fold minmax_step xs minmax_init) \<noteq> NaN \<and>
   (\<forall>c\<in>set xs. \<not> mx (fold minmax_step xs minmax_init) < c)"
proof (induction xs rule: rev_induct)
  case Nil
  then show ?case by (simp add: minmax_init_def)
next
  case (snoc v xs)
  let ?s = "fold minmax_step xs minmax_init"
  show ?case
  proof (cases "mx ?s < v")
    case True
    then have new: "mx (minmax_step v ?s) = v"
      by (simp add: minmax_step_def Let_def)
    have "\<forall>c\<in>set xs. \<not> v < c"
      using snoc.IH True by (blast intro: double_less_trans)
    then show ?thesis
      using new True by (simp add: double_less_irrefl double_less_not_NaN)
  next
    case False
    then have old: "mx (minmax_step v ?s) = mx ?s"
      by (simp add: minmax_step_def Let_def)
    with snoc.IH False show ?thesis by auto
  qed
qed

lemma GetMinMax_fold:
  assumes "grid_ok g" and "gwidth g < 2 ^ 31" and "gheight g < 2 ^ 31"
  shows "GetMinMax g =
     Inr (if \<not> hasMin (fold minmax_step (gdata g) minmax_init) then Fin 100
          else mn (fold minmax_step (gdata g) minmax_init),
          mx (fold minmax_step (gdata g) minmax_init))"
  by (simp add: GetMinMax_def minmax_scan_fold [OF assms] Let_def)

lemma GetMinMax_cells:
  assumes "grid_ok g"
  shows "\<exists>cs. set cs \<subseteq> set (gdata g) \<and>
           GetMinMax g =
             Inr (if \<not> hasMin (fold minmax_step cs minmax_init) then Fin 100
                  else mn (fold minmax_step cs minmax_init),
                  mx (fold minmax_step cs minmax_init))"
proof -
  from minmax_scan_cells [OF assms] obtain cs
    where "set cs \<subseteq> set (gdata g)" "minmax_scan g = fold minmax_step cs minmax_init"
    by blast
  then show ?thesis
    by (intro exI [of _ cs]) (simp add: GetMinMax_def Let_def)
qed

lemma double_less_not_le: "(c::double) < a \<Longrightarrow> \<not> a \<le> c"
  by (cases a; cases c) auto

lemma minmax_mx_unique:
  assumes "set xs = set ys"
  shows "mx (fold minmax_step xs minmax_init) = mx (fold minmax_step ys minmax_init)"
proof -
  let ?a = "mx (fold minmax_step xs minmax_init)"
  let ?b = "mx (fold minmax_step ys minmax_init)"
  have a: "?a \<in> insert NInf (set xs)" "?a \<noteq> NaN" "\<forall>c\<in>set xs. \<not> ?a < c"
    using minmax_mx [of xs] by simp_all
  have b: "?b \<in> insert NInf (set xs)" "?b \<noteq> NaN" "\<forall>c\<in>set xs. \<not> ?b < c"
    using minmax_mx [of ys] assms by simp_all
  have "\<not> ?a < ?b"
    using a(3) b(1) a(2) by (cases ?a) auto
  moreover have "\<not> ?b < ?a"
    using b(3) a(1) b(2) by (cases ?b) auto
  ultimately show ?thesis
    using a(2) b(2) by (rule double_not_less_antisym)
qed

lemma minmax_mn_unique:
  assumes "set xs = set ys" and "hasMin (fold minmax_step xs minmax_init)"
  shows "mn (fold minmax_step xs minmax_init) = mn (fold minmax_step ys minmax_init)"
proof -
  have h: "hasMin (fold minmax_step ys minmax_init)"
    using assms by (simp add: minmax_hasMin)
  show ?thesis
    using minmax_mn [OF assms(2)] minmax_mn [OF h] assms(1)
    by (auto intro: double_le_antisym)
qed

lemma minmax_all_below:
  assumes "\<forall>c\<in>set cs. c < Fin 100"
  shows "\<not> hasMin (fold minmax_step cs minmax_init)"
    and "mx (fold minmax_step cs minmax_init) < Fin 100"
proof -
  show "\<not> hasMin (fold minmax_step cs minmax_init)"
    using assms by (auto simp: minmax_hasMin dest: double_less_not_le)
  have "mx (fold minmax_step cs minmax_init) \<in> insert NInf (set cs)"
    using minmax_mx [of cs] by simp
  with assms show "mx (fold minmax_step cs minmax_init) < Fin 100" by auto
qed

lemma fold_skip: "fold (\<lambda>y. id) ys s = s"
  by (induction ys) simp_all

lemma scenario_grid_ok: "grid_ok scenario_grid"
  by (simp add: grid_ok_def scenario_grid_def)

lemma scenario_grid_small: "gwidth scenario_grid < 2 ^ 31" "gheight scenario_grid < 2 ^ 31"
  by (simp_all add: scenario_grid_def)

lemma low_grid_ok: "grid_ok low_grid"
  by (simp add: grid_ok_def low_grid_def)

lemma low_grid_small: "gwidth low_grid < 2 ^ 31" "gheight low_grid < 2 ^ 31"
  by (simp_all add: low_grid_def)

lemma scenario_result: "GetMinMax scenario_grid = Inr (Fin 100, Fin 300)"
  by (simp add: GetMinMax_fold [OF scenario_grid_ok scenario_grid_small])
     (simp add: scenario_grid_def minmax_step_def minmax_init_def)

lemma low_result: "GetMinMax low_grid = Inr (Fin 100, Fin 99)"
  by (simp add: GetMinMax_fold [OF low_grid_ok low_grid_small])
     (simp add: low_grid_def minmax_step_def minmax_init_def)

section \<open>Properties of GetMinMax\<close>

text \<open>
  C1. On a grid whose width and height are below \<open>2^31\<close> (so that the \<open>int32\<close> copies
  the loops run to are the width and the height) and which has at least one cell of
  value at least 100, \<open>GetMinMax\<close> returns as low the least of the cells of value at
  least 100 and as high the greatest of all cells (no cell that is a number exceeds
  it), and the result is the same for every such grid holding the same cells in
  another order.
\<close>

theorem GetMinMax_filtered_min:
  assumes "grid_ok g" and "gwidth g < 2 ^ 31" and "gheight g < 2 ^ 31"
    and "\<exists>c\<in>set (gdata g). Fin 100 \<le> c"
  shows "\<exists>lo hi. GetMinMax g = Inr (lo, hi) \<and>
           lo \<in> set (gdata g) \<and> Fin 100 \<le> lo \<and>
           (\<forall>c\<in>set (gdata g). Fin 100 \<le> c \<longrightarrow> lo \<le> c) \<and>
           hi \<in> set (gdata g) \<and>
           (\<forall>c\<in>set (gdata g). c \<noteq> NaN \<longrightarrow> c \<le> hi) \<and>
           (\<forall>g'. grid_ok g' \<and> gwidth g' < 2 ^ 31 \<and> gheight g' < 2 ^ 31 \<and>
                 mset (gdata g') = mset (gdata g) \<longrightarrow>
                 GetMinMax g' = GetMinMax g)"
proof -
  let ?s = "fold minmax_step (gdata g) minmax_init"
  have h: "hasMin ?s" using assms(4) by (simp add: minmax_hasMin)
  have res: "GetMinMax g = Inr (mn ?s, mx ?s)"
    using h by (simp add: GetMinMax_fold [OF assms(1,2,3)])
  note lo = minmax_mn [OF h]
  have mxs: "mx ?s \<in> insert NInf (set (gdata g))" "mx ?s \<noteq> NaN"
    "\<forall>c\<in>set (gdata g). \<not> mx ?s < c"
    using minmax_mx [of "gdata g"] by simp_all
  obtain c0 where c0: "c0 \<in> set (gdata g)" "Fin 100 \<le> c0" using assms(4) by blast
  have "mx ?s \<noteq> NInf"
  proof
    assume "mx ?s = NInf"
    with mxs(3) c0(1) have "\<not> NInf < c0" by auto
    with c0(2) show False by (cases c0) auto
  qed
  with mxs(1) have hi_in: "mx ?s \<in> set (gdata g)" by simp
  have hi_max: "\<forall>c\<in>set (gdata g). c \<noteq> NaN \<longrightarrow> c \<le> mx ?s"
    using mxs(2,3) by (simp add: double_le_iff)
  have indep: "GetMinMax g' = GetMinMax g"
    if "grid_ok g' \<and> gwidth g' < 2 ^ 31 \<and> gheight g' < 2 ^ 31 \<and>
        mset (gdata g') = mset (gdata g)" for g'
  proof -
    from that have ok: "grid_ok g'" "gwidth g' < 2 ^ 31" "gheight g' < 2 ^ 31"
      and "mset (gdata g') = mset (gdata g)" by simp_all
    then have st: "set (gdata g) = set (gdata g')" by (metis set_mset_mset)
    have h': "hasMin (fold minmax_step (gdata g') minmax_init)"
      using h st by (simp add: minmax_hasMin)
    show ?thesis
      using h h' res minmax_mx_unique [OF st] minmax_mn_unique [OF st h]
      by (simp add: GetMinMax_fold [OF ok])
  qed
  show ?thesis
    using res lo hi_in hi_max indep by blast
qed

theorem GetMinMax_filtered_min_witness:
  "grid_ok scenario_grid \<and> gwidth scenario_grid < 2 ^ 31 \<and> gheight scenario_grid < 2 ^ 31 \<and>
   (\<exists>c\<in>set (gdata scenario_grid). Fin 100 \<le> c) \<and>
   GetMinMax scenario_grid = Inr (Fin 100, Fin 300) \<and>
   GetMinMax \<lparr>gwidth = 2, gheight = 2, gdata = [Fin 100, Fin 300, Fin 150, Fin 50]\<rparr> =
     Inr (Fin 100, Fin 300)"
proof -
  let ?g' = "\<lparr>gwidth = 2, gheight = 2, gdata = [Fin 100, Fin 300, Fin 150, Fin 50]\<rparr>"
  have h: "\<exists>c\<in>set (gdata scenario_grid). Fin 100 \<le> c"
    by (simp add: scenario_grid_def)
  have p: "grid_ok ?g' \<and> gwidth ?g' < 2 ^ 31 \<and> gheight ?g' < 2 ^ 31 \<and>
           mset (gdata ?g') = mset (gdata scenario_grid)"
    by (simp add: grid_ok_def scenario_grid_def)
  from GetMinMax_filtered_min [OF scenario_grid_ok scenario_grid_small h] p
  have "GetMinMax ?g' = GetMinMax scenario_grid" by blast
  with scenario_result h scenario_grid_ok scenario_grid_small show ?thesis by simp
qed

text \<open>
  C4, as amended. \<open>GetMinMax\<close> has no error path: on a grid without cells it returns
  the fallback low 100 and the initial high, minus infinity.
\<close>

theorem GetMinMax_empty:
  assumes "gwidth g * gheight g = 0"
  shows "GetMinMax g = Inr (Fin 100, NInf)"
proof (cases "gheight g = 0")
  case True
  then show ?thesis
    by (simp add: GetMinMax_def minmax_scan_def minmax_init_def int32_of_size_def
        int32_range_def)
next
  case False
  with assms have "gwidth g = 0" by simp
  then show ?thesis
    by (simp add: GetMinMax_def minmax_scan_def minmax_init_def int32_of_size_def
        int32_range_def fold_skip)
qed

theorem GetMinMax_empty_witness:
  "gwidth \<lparr>gwidth = 0, gheight = 3, gdata = []\<rparr> * gheight \<lparr>gwidth = 0, gheight = 3, gdata = []\<rparr> = 0 \<and>
   GetMinMax \<lparr>gwidth = 0, gheight = 3, gdata = []\<rparr> = Inr (Fin 100, NInf)"
  using GetMinMax_empty [of "\<lparr>gwidth = 0, gheight = 3, gdata = []\<rparr>"] by simp

text \<open>
  C4, as stated, fails on the empty grid: the result is a pair of numbers, not
  \<open>InvalidInputError\<close>.
\<close>

theorem GetMinMax_empty_counterexample:
  "GetMinMax \<lparr>gwidth = 0, gheight = 0, gdata = []\<rparr> \<noteq> Inl InvalidInputError \<and>
   GetMinMax \<lparr>gwidth = 0, gheight = 0, gdata = []\<rparr> = Inr (Fin 100, NInf)"
  by (simp add: GetMinMax_def minmax_scan_def minmax_init_def int32_of_size_def
      int32_range_def)

text \<open>
  C7. On a non-empty grid whose cells are all strictly below 100, the low value
  returned by \<open>GetMinMax\<close> is the constant 100. This holds for every width and height:
  whichever cells the loops visit, none passes the test.
\<close>

theorem GetMinMax_fallback:
  assumes "grid_ok g" and "gdata g \<noteq> []" and "\<forall>c\<in>set (gdata g). c < Fin 100"
  shows "\<exists>hi. GetMinMax g = Inr (Fin 100, hi)"
proof -
  from GetMinMax_cells [OF assms(1)] obtain cs
    where cs: "set cs \<subseteq> set (gdata g)"
      and res: "GetMinMax g =
             Inr (if \<not> hasMin (fold minmax_step cs minmax_init) then Fin 100
                  else mn (fold minmax_step cs minmax_init),
                  mx (fold minmax_step cs minmax_init))"
    by blast
  from cs assms(3) have "\<forall>c\<in>set cs. c < Fin 100" by blast
  then have "\<not> hasMin (fold minmax_step cs minmax_init)" by (rule minmax_all_below)
  with res show ?thesis by simp
qed

theorem GetMinMax_fallback_witness:
  "grid_ok low_grid \<and> gdata low_grid \<noteq> [] \<and>
   list_all (\<lambda>c. c < Fin 100) (gdata low_grid) \<and>
   (\<exists>hi. GetMinMax low_grid = Inr (Fin 100, hi))"
proof -
  have h: "gdata low_grid \<noteq> []" "\<forall>c\<in>set (gdata low_grid). c < Fin 100"
    by (simp_all add: low_grid_def)
  from GetMinMax_fallback [OF low_grid_ok h] h low_grid_ok show ?thesis
    by (simp add: list_all_iff)
qed

text \<open>
  C9. The low value returned by \<open>GetMinMax\<close> is at least 100, for every width and
  height: it is the constant 100 or a cell of the grid. On a grid whose width and
  height are below \<open>2^31\<close> it is the least of the cells of value at least 100 when there
  is one, and the constant 100 otherwise.
\<close>

theorem GetMinMax_low_ge_100:
  assumes "grid_ok g"
  shows "\<exists>lo hi. GetMinMax g = Inr (lo, hi) \<and> Fin 100 \<le> lo \<and>
           (lo = Fin 100 \<or> lo \<in> set (gdata g)) \<and>
           (gwidth g < 2 ^ 31 \<and> gheight g < 2 ^ 31 \<longrightarrow>
              (if \<exists>c\<in>set (gdata g). Fin 100 \<le> c
               then lo \<in> set (gdata g) \<and> (\<forall>c\<in>set (gdata g). Fin 100 \<le> c \<longrightarrow> lo \<le> c)
               else lo = Fin 100))"
proof (cases "gwidth g < 2 ^ 31 \<and> gheight g < 2 ^ 31")
  case True
  then have small: "gwidth g < 2 ^ 31" "gheight g < 2 ^ 31" by simp_all
  note res = GetMinMax_fold [OF assms small]
  show ?thesis
  proof (cases "hasMin (fold minmax_step (gdata g) minmax_init)")
    case h: True
    from minmax_mn [OF h] h res show ?thesis
      by (simp add: minmax_hasMin)
  next
    case False
    with res show ?thesis
      by (simp add: minmax_hasMin)
  qed
next
  case large: False
  from GetMinMax_cells [OF assms] obtain cs
    where cs: "set cs \<subseteq> set (gdata g)"
      and res: "GetMinMax g =
             Inr (if \<not> hasMin (fold minmax_step cs minmax_init) then Fin 100
                  else mn (fold minmax_step cs minmax_init),
                  mx (fold minmax_step cs minmax_init))"
    by blast
  show ?thesis
  proof (cases "hasMin (fold minmax_step cs minmax_init)")
    case h: True
    from minmax_mn [OF h] cs
    have "mn (fold minmax_step cs minmax_init) \<in> set (gdata g)"
      and "Fin 100 \<le> mn (fold minmax_step cs minmax_init)" by auto
    with h res large show ?thesis by auto
  next
    case False
    with res large show ?thesis by auto
  qed
qed

theorem GetMinMax_low_ge_100_witness:
  "grid_ok scenario_grid \<and>
   (\<exists>lo hi. GetMinMax scenario_grid = Inr (lo, hi) \<and> Fin 100 \<le> lo \<and>
      lo \<in> set (gdata scenario_grid) \<and>
      list_all (\<lambda>c. c < Fin 100 \<or> lo \<le> c) (gdata scenario_grid))"
proof -
  have h: "\<exists>c\<in>set (gdata scenario_grid). Fin 100 \<le> c"
    by (simp add: scenario_grid_def)
  from GetMinMax_low_ge_100 [OF scenario_grid_ok] scenario_grid_small h
  obtain lo hi where r: "GetMinMax scenario_grid = Inr (lo, hi)" "Fin 100 \<le> lo"
    "lo \<in> set (gdata scenario_grid)"
    "\<forall>c\<in>set (gdata scenario_grid). Fin 100 \<le> c \<longrightarrow> lo \<le> c"
    by auto
  from r(1) scenario_result have "lo = Fin 100" by simp
  with r scenario_grid_ok show ?thesis
    by (simp add: list_all_iff scenario_grid_def)
qed

text \<open>
  C10. On a non-empty grid whose cells are all strictly below 100, the high value
  returned by \<open>GetMinMax\<close> is strictly below the low value 100, for every width and
  height: the returned range is not ordered. On a grid whose width and height are below
  \<open>2^31\<close> the high value is the greatest cell, unfiltered.
\<close>

theorem GetMinMax_high_below_low:
  assumes "grid_ok g" and "gdata g \<noteq> []" and "\<forall>c\<in>set (gdata g). c < Fin 100"
  shows "\<exists>lo hi. GetMinMax g = Inr (lo, hi) \<and> lo = Fin 100 \<and> hi < lo \<and> \<not> lo \<le> hi \<and>
           (gwidth g < 2 ^ 31 \<and> gheight g < 2 ^ 31 \<longrightarrow>
              hi \<in> set (gdata g) \<and> (\<forall>c\<in>set (gdata g). c \<le> hi))"
proof (cases "gwidth g < 2 ^ 31 \<and> gheight g < 2 ^ 31")
  case True
  then have small: "gwidth g < 2 ^ 31" "gheight g < 2 ^ 31" by simp_all
  let ?s = "fold minmax_step (gdata g) minmax_init"
  note below = minmax_all_below [OF assms(3)]
  have res: "GetMinMax g = Inr (Fin 100, mx ?s)"
    using below(1) by (simp add: GetMinMax_fold [OF assms(1) small])
  have mxs: "mx ?s \<in> insert NInf (set (gdata g))" "mx ?s \<noteq> NaN"
    "\<forall>c\<in>set (gdata g). \<not> mx ?s < c"
    using minmax_mx [of "gdata g"] by simp_all
  have nn: "\<forall>c\<in>set (gdata g). c \<noteq> NaN"
    using assms(3) by auto
  have le: "\<forall>c\<in>set (gdata g). c \<le> mx ?s"
    using mxs(2,3) nn by (simp add: double_le_iff)
  obtain c0 where c0: "c0 \<in> set (gdata g)" using assms(2) by (cases "gdata g") auto
  have hi_in: "mx ?s \<in> set (gdata g)"
  proof (cases "mx ?s = NInf")
    case True
    with le c0 have "c0 \<le> NInf" by auto
    then have "c0 = NInf" by (cases c0) auto
    with c0 True show ?thesis by simp
  next
    case False
    with mxs(1) show ?thesis by simp
  qed
  from below(2) have "\<not> Fin 100 \<le> mx ?s" by (rule double_less_not_le)
  with res hi_in le below(2) show ?thesis by simp
next
  case large: False
  from GetMinMax_cells [OF assms(1)] obtain cs
    where cs: "set cs \<subseteq> set (gdata g)"
      and res: "GetMinMax g =
             Inr (if \<not> hasMin (fold minmax_step cs minmax_init) then Fin 100
                  else mn (fold minmax_step cs minmax_init),
                  mx (fold minmax_step cs minmax_init))"
    by blast
  from cs assms(3) have "\<forall>c\<in>set cs. c < Fin 100" by blast
  note below = minmax_all_below [OF this]
  from below(2) have "\<not> Fin 100 \<le> mx (fold minmax_step cs minmax_init)"
    by (rule double_less_not_le)
  with res below large show ?thesis by auto
qed

theorem GetMinMax_high_below_low_witness:
  "grid_ok low_grid \<and> gdata low_grid \<noteq> [] \<and>
   list_all (\<lambda>c. c < Fin 100) (gdata low_grid) \<and>
   gwidth low_grid < 2 ^ 31 \<and> gheight low_grid < 2 ^ 31 \<and>
   (\<exists>lo hi. GetMinMax low_grid = Inr (lo, hi) \<and> hi < lo \<and> hi \<in> set (gdata low_grid) \<and>
      list_all (\<lambda>c. c \<le> hi) (gdata low_grid))"
proof -
  have h: "gdata low_grid \<noteq> []" "\<forall>c\<in>set (gdata low_grid). c < Fin 100"
    by (simp_all add: low_grid_def)
  from GetMinMax_high_below_low [OF low_grid_ok h] low_grid_small obtain lo hi
    where "GetMinMax low_grid = Inr (lo, hi)" "hi < lo" "hi \<in> set (gdata low_grid)"
      "\<forall>c\<in>set (gdata low_grid). c \<le> hi" by blast
  with h low_grid_ok low_grid_small show ?thesis
    by (auto simp: list_all_iff)
qed

section \<open>Properties of GetBounds\<close>

text \<open>
  C8, as amended. \<open>GetBounds\<close> has no error path: it returns a bounding box for every
  field, and the bounds of each empty axis array are the initial values, plus infinity
  for the minimum and minus infinity for the maximum.
\<close>

theorem GetBounds_empty_axis:
  "\<exists>b. GetBounds field = Inr b \<and>
       (lons field = [] \<longrightarrow> lonMin b = PInf \<and> lonMax b = NInf) \<and>
       (lats field = [] \<longrightarrow> latMin b = PInf \<and> latMax b = NInf)"
  by (simp add: GetBounds_def Let_def)

theorem GetBounds_empty_axis_witness:
  "\<exists>b. GetBounds \<lparr>pmsl = \<lparr>gwidth = 0, gheight = 0, gdata = []\<rparr>, lats = [], lons = []\<rparr> = Inr b \<and>
       lonMin b = PInf \<and> lonMax b = NInf \<and> latMin b = PInf \<and> latMax b = NInf"
  using GetBounds_empty_axis
    [of "\<lparr>pmsl = \<lparr>gwidth = 0, gheight = 0, gdata = []\<rparr>, lats = [], lons = []\<rparr>"]
  by simp

text \<open>
  C8, as stated, fails on a field without longitudes: the result is a bounding box, not
  \<open>InvalidInputError\<close>.
\<close>

theorem GetBounds_empty_axis_counterexample:
  "GetBounds \<lparr>pmsl = scenario_grid, lats = [Fin 35, Fin 36], lons = []\<rparr> \<noteq> Inl InvalidInputError \<and>
   GetBounds \<lparr>pmsl = scenario_grid, lats = [Fin 35, Fin 36], lons = []\<rparr> =
     Inr \<lparr>lonMin = PInf, lonMax = NInf, latMin = Fin 35, latMax = Fin 36\<rparr>"
  by (simp add: GetBounds_def bounds_step_def Min_double_def Max_double_def)

section \<open>Properties of CoastlineOverlay\<close>

lemma visible_fold:
  "fold (visible_step bbox view) ics acc =
   acc @ map fst (filter (\<lambda>ic. intersects (bbox (snd ic)) view) ics)"
  by (induction ics arbitrary: acc) (simp_all add: visible_step_def)

lemma visibleIndices_eq:
  "visibleIndices (new_CoastlineOverlay bbox loaded view) =
   map fst (filter (\<lambda>ic. intersects (bbox (snd ic)) view) (enumerate 0 loaded))"
  by (simp add: new_CoastlineOverlay_def visible_fold)

text \<open>
  C5. An index is among the visible indices computed by the constructor exactly when
  it is the index of a loaded feature whose bounding rectangle intersects the visible
  rectangle.
\<close>

theorem visibility_culling:
  "i \<in> set (visibleIndices (new_CoastlineOverlay bbox loaded view)) \<longleftrightarrow>
   i < length loaded \<and> intersects (bbox (loaded ! i)) view"
proof -
  have "i \<in> set (visibleIndices (new_CoastlineOverlay bbox loaded view)) \<longleftrightarrow>
        (\<exists>c. (i, c) \<in> set (enumerate 0 loaded) \<and> intersects (bbox c) view)"
    by (force simp: visibleIndices_eq)
  also have "\<dots> \<longleftrightarrow> i < length loaded \<and> intersects (bbox (loaded ! i)) view"
    by (auto simp: in_set_enumerate_eq)
  finally show ?thesis .
qed

text \<open>
  C2. For a grid of at least one column and one row and geographic bounds of positive
  extent, \<open>draw\<close> builds the scale \<open>(size - pixelSize) / extent\<close> and the translation
  \<open>origin + pixelSize / 2 - min * scale\<close>, with \<open>pixelSize = size / (w, h)\<close>, and the
  transform sends a point \<open>p\<close> to \<open>p * scale + translate\<close>. For a grid of 2 by 2 cells,
  a destination of size (100, 100) at the origin and bounds from 0 to 1, the point
  (0, 0) goes to (25, 25) and the point (1, 1) to (75, 75).
\<close>

theorem draw_affine_map:
  assumes "1 \<le> w" and "1 \<le> h" and "lonMin' < lonMax'" and "yMin < yMax"
  shows "draw_transform (setGridSize w h ov) \<lparr>rx = Fin ox, ry = Fin oy, rw = Fin dw, rh = Fin dh\<rparr>
           (Fin lonMin') (Fin lonMax') (Fin yMin) (Fin yMax) =
         \<lparr>scale = \<lparr>vx = Fin ((dw - dw / of_int w) / (lonMax' - lonMin')),
                    vy = Fin ((dh - dh / of_int h) / (yMax - yMin))\<rparr>,
          translate =
            \<lparr>vx = Fin (ox + dw / of_int w / 2
                       - lonMin' * ((dw - dw / of_int w) / (lonMax' - lonMin'))),
             vy = Fin (oy + dh / of_int h / 2
                       - yMin * ((dh - dh / of_int h) / (yMax - yMin)))\<rparr>\<rparr> \<and>
         transformPoint \<lparr>scale = \<lparr>vx = Fin sx, vy = Fin sy\<rparr>, translate = \<lparr>vx = Fin tx, vy = Fin ty\<rparr>\<rparr>
           \<lparr>vx = Fin px, vy = Fin py\<rparr> = \<lparr>vx = Fin (px * sx + tx), vy = Fin (py * sy + ty)\<rparr> \<and>
         transformPoint
           (draw_transform (setGridSize 2 2 ov) \<lparr>rx = Fin 0, ry = Fin 0, rw = Fin 100, rh = Fin 100\<rparr>
              (Fin 0) (Fin 1) (Fin 0) (Fin 1))
           \<lparr>vx = Fin 0, vy = Fin 0\<rparr> = \<lparr>vx = Fin 25, vy = Fin 25\<rparr> \<and>
         transformPoint
           (draw_transform (setGridSize 2 2 ov) \<lparr>rx = Fin 0, ry = Fin 0, rw = Fin 100, rh = Fin 100\<rparr>
              (Fin 0) (Fin 1) (Fin 0) (Fin 1))
           \<lparr>vx = Fin 1, vy = Fin 1\<rparr> = \<lparr>vx = Fin 75, vy = Fin 75\<rparr>"
  using assms
  by (simp add: draw_transform_def setGridSize_def transformPoint_def Let_def)

theorem draw_affine_map_witness:
  "draw_transform (setGridSize 4 2 (new_CoastlineOverlay (\<lambda>p. p) [] \<lparr>rx = Fin 0, ry = Fin 0, rw = Fin 1, rh = Fin 1\<rparr>))
     \<lparr>rx = Fin 10, ry = Fin 20, rw = Fin 200, rh = Fin 100\<rparr>
     (Fin 130) (Fin 140) (Fin (- 40)) (Fin (- 30)) =
   \<lparr>scale = \<lparr>vx = Fin 15, vy = Fin 5\<rparr>, translate = \<lparr>vx = Fin (- 1915), vy = Fin 245\<rparr>\<rparr>"
proof -
  have h: "(1::int) \<le> 4" "(1::int) \<le> 2" "(130::real) < 140" "(- 40::real) < - 30"
    by simp_all
  from draw_affine_map [OF h, where ox = 10 and oy = 20 and dw = 200 and dh = 100
      and ov = "new_CoastlineOverlay (\<lambda>p. p) [] \<lparr>rx = Fin 0, ry = Fin 0, rw = Fin 1, rh = Fin 1\<rparr>"]
  show ?thesis by simp
qed

section \<open>Properties of CreateColormapImage\<close>

lemma length_write_row:
  "length (fold (\<lambda>x px. px[k + x := F x]) [0..<w] px) = length px"
  by (induction w) simp_all

lemma nth_write_row:
  "i < length px \<Longrightarrow>
   fold (\<lambda>x px. px[k + x := F x]) [0..<w] px ! i =
     (if k \<le> i \<and> i < k + w then F (i - k) else px ! i)"
proof (induction w)
  case 0
  then show ?case by auto
next
  case (Suc w)
  let ?prev = "fold (\<lambda>x px. px[k + x := F x]) [0..<w] px"
  have len: "i < length ?prev" using Suc.prems by (simp add: length_write_row)
  show ?case
  proof (cases "i = k + w")
    case True
    with len show ?thesis by simp
  next
    case False
    with Suc show ?thesis by (auto simp: nth_list_update)
  qed
qed

lemma length_write_rows:
  "length (fold (\<lambda>y. fold (\<lambda>x px. px[y * w + x := F y x]) [0..<w]) [0..<n] px) = length px"
  by (induction n) (simp_all add: length_write_row)

lemma nth_write_rows:
  assumes "y < n" and "x < w" and "n * w \<le> length px"
  shows "fold (\<lambda>y. fold (\<lambda>x px. px[y * w + x := F y x]) [0..<w]) [0..<n] px ! (y * w + x) = F y x"
  using assms
proof (induction n)
  case 0
  then show ?case by simp
next
  case (Suc n)
  let ?prev = "fold (\<lambda>y. fold (\<lambda>x px. px[y * w + x := F y x]) [0..<w]) [0..<n] px"
  have "y * w \<le> n * w"
    using Suc.prems(1) by (intro mult_le_mono1) simp
  moreover have "n * w + w \<le> length px"
    using Suc.prems(3) by (simp add: add.commute)
  ultimately have bound: "y * w + x < length px"
    using Suc.prems(2) by linarith
  then have len: "y * w + x < length ?prev"
    by (simp add: length_write_rows)
  have step: "fold (\<lambda>y. fold (\<lambda>x px. px[y * w + x := F y x]) [0..<w]) [0..<Suc n] px ! (y * w + x) =
        (if n * w \<le> y * w + x \<and> y * w + x < n * w + w then F n (y * w + x - n * w)
         else ?prev ! (y * w + x))"
    using nth_write_row [OF len, of "n * w" "F n" w] by simp
  show ?case
  proof (cases "y = n")
    case True
    with step Suc.prems(2) show ?thesis by simp
  next
    case False
    with Suc.prems(1) have lt: "y < n" by simp
    then have "Suc y * w \<le> n * w" by (intro mult_le_mono1) simp
    then have "y * w + w \<le> n * w" by (simp add: add.commute)
    then have "y * w + x < n * w" using Suc.prems(2) by linarith
    moreover have "n * w \<le> length px" using Suc.prems(3) by simp
    ultimately show ?thesis
      using step Suc.IH [OF lt Suc.prems(2)] by simp
  qed
qed

lemma pixel_CreateColormapImage:
  assumes "grid_ok data" and "gwidth data < 2 ^ 31" and "gheight data < 2 ^ 31"
    and "y < gheight data" and "x < gwidth data"
  shows "pixel (CreateColormapImage cm blank data vmin vmax cmapType) y x =
         cm (normalized (cell data y x) vmin (Fin 1 / (vmax - vmin))) cmapType"
proof -
  have w: "nat (int32_of_size (gwidth data)) = gwidth data"
    and h: "nat (int32_of_size (gheight data)) = gheight data"
    using assms(2,3) by (simp_all add: int32_of_size_id)
  have "gheight data * gwidth data \<le> length (replicate (gwidth data * gheight data) blank)"
    by (simp add: mult.commute)
  from nth_write_rows [OF assms(4,5) this,
      of "\<lambda>y x. cm (normalized (cell data y x) vmin (Fin 1 / (vmax - vmin))) cmapType"]
  show ?thesis
    by (simp add: pixel_def CreateColormapImage_def colormap_rows_def Let_def
        int32_range_def w h)
qed

text \<open>
  With low equal to high the inverse range is infinite, and the normalised value of a
  cell other than the range value is decided by the sign of the difference alone.
\<close>

lemma normalized_degenerate_below:
  "c < Fin r \<Longrightarrow> normalized c (Fin r) (Fin 1 / (Fin r - Fin r)) = Fin 0"
  by (cases c) (auto simp: normalized_def Clamp_def)

lemma normalized_degenerate_above:
  "Fin r < c \<Longrightarrow> normalized c (Fin r) (Fin 1 / (Fin r - Fin r)) = Fin 1"
  by (cases c) (auto simp: normalized_def Clamp_def)

text \<open>
  C3, as amended. For a range whose low and high are the same finite non-zero value,
  and a grid whose width and height are below \<open>2^31\<close>, the function has no special
  case: a cell below the range value gets the colour of the ramp at 0 and a cell above
  it the colour of the ramp at 1.

  No rounding enters here. The difference of the range value with itself is the
  positive zero, since the value is not a zero, so the inverse range is plus infinity;
  the difference of a cell and a distinct range value is not zero and has the sign of
  the exact difference, and its product with plus infinity is the infinity of that
  sign.
\<close>

theorem CreateColormapImage_degenerate:
  assumes "grid_ok data" and "gwidth data < 2 ^ 31" and "gheight data < 2 ^ 31"
    and "y < gheight data" and "x < gwidth data" and "r \<noteq> 0"
  shows "(cell data y x < Fin r \<longrightarrow>
            pixel (CreateColormapImage cm blank data (Fin r) (Fin r) cmapType) y x =
              cm (Fin 0) cmapType) \<and>
         (Fin r < cell data y x \<longrightarrow>
            pixel (CreateColormapImage cm blank data (Fin r) (Fin r) cmapType) y x =
              cm (Fin 1) cmapType)"
proof -
  note px = pixel_CreateColormapImage [OF assms(1,2,3,4,5)]
  show ?thesis
  proof (intro conjI impI)
    assume "cell data y x < Fin r"
    from normalized_degenerate_below [OF this]
    show "pixel (CreateColormapImage cm blank data (Fin r) (Fin r) cmapType) y x =
            cm (Fin 0) cmapType"
      by (simp only: px)
  next
    assume "Fin r < cell data y x"
    from normalized_degenerate_above [OF this]
    show "pixel (CreateColormapImage cm blank data (Fin r) (Fin r) cmapType) y x =
            cm (Fin 1) cmapType"
      by (simp only: px)
  qed
qed

theorem CreateColormapImage_degenerate_witness:
  "pixel (CreateColormapImage (\<lambda>t k. t) (Fin 7) scenario_grid (Fin 100) (Fin 100) ()) 0 0 = Fin 0 \<and>
   pixel (CreateColormapImage (\<lambda>t k. t) (Fin 7) scenario_grid (Fin 100) (Fin 100) ()) 0 1 = Fin 1"
proof -
  have c: "cell scenario_grid 0 0 < Fin 100" "Fin 100 < cell scenario_grid 0 1"
    by (simp_all add: cell_def scenario_grid_def)
  have d: "0 < gheight scenario_grid" "0 < gwidth scenario_grid" "1 < gwidth scenario_grid"
    by (simp_all add: scenario_grid_def)
  have nz: "(100::real) \<noteq> 0" by simp
  from CreateColormapImage_degenerate
      [OF scenario_grid_ok scenario_grid_small d(1) d(2) nz, of "\<lambda>t k. t" "Fin 7" "()"]
    CreateColormapImage_degenerate
      [OF scenario_grid_ok scenario_grid_small d(1) d(3) nz, of "\<lambda>t k. t" "Fin 7" "()"] c
  show ?thesis by blast
qed

text \<open>
  C3, as stated, fails on the scenario grid with the range from 100 to 100: under the
  ramp that returns its argument the four pixels are not one constant colour, and the
  last one, of the cell equal to the range value, is NaN.
\<close>

theorem CreateColormapImage_degenerate_counterexample:
  "pixels (CreateColormapImage (\<lambda>t k. t) (Fin 7) scenario_grid (Fin 100) (Fin 100) ()) =
     [Fin 0, Fin 1, Fin 1, NaN]"
  by (simp add: CreateColormapImage_def colormap_rows_def scenario_grid_def cell_def
      normalized_def Clamp_def Let_def upt_conv_Cons eval_nat_numeral
      int32_of_size_def int32_range_def)

end
